theory Spec2Isabelle
  imports Main "HOL-Library.Char_ord" "HOL-Library.List_Lexorder"
begin

section \<open>The conflicted annotation collection page resolver\<close>

text \<open>
  A shallow embedding of \<^verbatim>\<open>resolve\<close> in \<^verbatim>\<open>conflicted_ac_page_resolver.py\<close>.
  The function reads a page file with Git conflict markers, rebuilds "our" and "their"
  version of the file, writes both, parses them as JSON, computes the annotations that
  only "they" have (plus their versions of mismatched ones) and inserts those into
  "our" list by timestamp, and writes the merged list.

  What the model takes as given:
  \<^item> the input is the list \<open>lines\<close> that \<^verbatim>\<open>f.readlines()\<close> returns;
  \<^item> \<^verbatim>\<open>json.load\<close>, \<^verbatim>\<open>datetime.fromisoformat\<close> and the order in which
    \<^verbatim>\<open>list(set(...))\<close> enumerates a set are library behaviour, not code of the
    repository: they are parameters \<open>json_load\<close>, \<open>fromisoformat\<close> and \<open>materialize\<close>;
  \<^item> \<open>json_load\<close> returns \<open>None\<close> exactly when \<^verbatim>\<open>json.load\<close> raises, and otherwise
    the value read, as a \<open>json_value\<close>: the code never checks the shape of that value, so
    the three kinds of value that it treats differently are kept apart;
  \<^item> an annotation is a record of the value of its \<^verbatim>\<open>"id"\<close> key, the string at
    \<^verbatim>\<open>["body"]["properties"]["system"][CATMA_MARKUPTIMESTAMP_UUID][0]\<close> (\<open>None\<close> when
    that path is missing or does not hold a string) and the rest of the object;
  \<^item> the datetimes of one run are mutually comparable, so that \<^verbatim>\<open><=\<close> on them is a
    linear order (type class \<open>linorder\<close>).
\<close>

subsection \<open>Constants and errors\<close>

definition HEAD_MARKER :: string where
  "HEAD_MARKER = ''<<<<<<<''"

definition SEPARATOR :: string where
  "SEPARATOR = ''=======''"

definition MASTER_MARKER :: string where
  "MASTER_MARKER = ''>>>>>>>''"

text \<open>
  Every way in which a run of \<^verbatim>\<open>resolve\<close> stops with an exception. The two
  \<^verbatim>\<open>raise\<close> statements of the source raise a string, which Python 3 turns into a
  \<^verbatim>\<open>TypeError\<close>; the run stops at that statement all the same, and the model keeps the
  two sites apart.
\<close>

datatype error =
    UnexpectedMarker string string nat
      \<comment> \<open>the sanity check: expected marker, offending line without its last character, line number\<close>
  | NoneComparison
      \<comment> \<open>\<^verbatim>\<open>unconflicted_line_idxs[0] < conflict[0]\<close> with \<^verbatim>\<open>conflict[0]\<close> being \<^verbatim>\<open>None\<close>\<close>
  | LineIndexError
      \<comment> \<open>\<^verbatim>\<open>lines[unconflicted_line_idx]\<close> out of range\<close>
  | JSONDecodeError
      \<comment> \<open>\<^verbatim>\<open>json.load\<close> raises\<close>
  | AnnotationAccessError
      \<comment> \<open>lines 122 to 124: the value cannot be iterated, or \<^verbatim>\<open>annotation["id"][-42:]\<close>
          raises, or the identity cannot be hashed\<close>
  | NoReverseMethod
      \<comment> \<open>line 145: \<^verbatim>\<open>our_annotations.reverse()\<close> on a value that is not a list\<close>
  | InvalidTimestamp
      \<comment> \<open>the timestamp path is missing or \<^verbatim>\<open>datetime.fromisoformat\<close> rejects the string\<close>
  | FailedToAddAnnotation
      \<comment> \<open>\<^verbatim>\<open>raise "Failed to add annotation"\<close>\<close>

subsection \<open>Python list and string primitives\<close>

definition startswith :: "string \<Rightarrow> string \<Rightarrow> bool" where
  \<comment> \<open>\<^verbatim>\<open>line.startswith(p)\<close>\<close>
  "startswith line p = (take (length p) line = p)"

definition py_slice :: "'a list \<Rightarrow> nat option \<Rightarrow> nat option \<Rightarrow> 'a list" where
  \<comment> \<open>\<^verbatim>\<open>xs[a:b]\<close> for bounds that are \<^verbatim>\<open>None\<close> or not negative: a missing lower bound is
      0, a missing upper bound is the length\<close>
  "py_slice xs a b =
     (let lo = (case a of None \<Rightarrow> 0 | Some i \<Rightarrow> i);
          hi = (case b of None \<Rightarrow> length xs | Some j \<Rightarrow> j)
      in take (hi - lo) (drop lo xs))"

definition chars_of :: "string \<Rightarrow> string list" where
  \<comment> \<open>\<^verbatim>\<open>a_list += a_string\<close> extends the list by the characters of the string, one element each\<close>
  "chars_of s = map (\<lambda>c. [c]) s"

subsection \<open>Scanning for conflict markers\<close>

type_synonym conflict = "nat option \<times> nat option \<times> nat option \<times> nat option"

record scan_state =
  ours_start :: "nat option"
  ours_end :: "nat option"
  theirs_start :: "nat option"
  theirs_end :: "nat option"
  unconflicted_start_until_idx :: "nat option"
  unconflicted_end_from_idx :: "nat option"
  unconflicted_line_idxs :: "nat list"
  conflicts :: "conflict list"
  next_expected_marker :: string

definition initial_scan_state :: scan_state where
  "initial_scan_state =
     \<lparr>ours_start = None, ours_end = None, theirs_start = None, theirs_end = None,
      unconflicted_start_until_idx = None, unconflicted_end_from_idx = None,
      unconflicted_line_idxs = [], conflicts = [], next_expected_marker = HEAD_MARKER\<rparr>"

definition scan_line :: "scan_state \<Rightarrow> nat \<Rightarrow> string \<Rightarrow> error + scan_state" where
  \<comment> \<open>the body of \<^verbatim>\<open>for idx, line in enumerate(lines)\<close>\<close>
  "scan_line st idx line =
     (if startswith line HEAD_MARKER \<and> next_expected_marker st = HEAD_MARKER then
        Inr (st\<lparr>ours_start := Some (idx + 1),
                next_expected_marker := SEPARATOR,
                unconflicted_start_until_idx :=
                  (case unconflicted_start_until_idx st of None \<Rightarrow> Some idx | Some i \<Rightarrow> Some i),
                unconflicted_line_idxs :=
                  (case unconflicted_end_from_idx st of
                     None \<Rightarrow> unconflicted_line_idxs st
                   | Some e \<Rightarrow> if e < idx then unconflicted_line_idxs st @ [e..<idx]
                              else unconflicted_line_idxs st)\<rparr>)
      else if startswith line SEPARATOR \<and> next_expected_marker st = SEPARATOR then
        Inr (st\<lparr>ours_end := Some idx,
                theirs_start := Some (idx + 1),
                next_expected_marker := MASTER_MARKER\<rparr>)
      else if startswith line MASTER_MARKER \<and> next_expected_marker st = MASTER_MARKER then
        Inr (st\<lparr>theirs_end := Some idx,
                next_expected_marker := HEAD_MARKER,
                unconflicted_end_from_idx := Some (idx + 1),
                conflicts := conflicts st @ [(ours_start st, ours_end st, theirs_start st, Some idx)]\<rparr>)
      else if (startswith line HEAD_MARKER \<or> startswith line SEPARATOR \<or> startswith line MASTER_MARKER)
              \<and> \<not> startswith line (next_expected_marker st) then
        Inl (UnexpectedMarker (next_expected_marker st) (butlast line) (idx + 1))
      else Inr st)"

fun scan_from :: "nat \<Rightarrow> string list \<Rightarrow> scan_state \<Rightarrow> error + scan_state" where
  "scan_from idx [] st = Inr st"
| "scan_from idx (line # rest) st =
     (case scan_line st idx line of
        Inl e \<Rightarrow> Inl e
      | Inr st' \<Rightarrow> scan_from (Suc idx) rest st')"

definition scan :: "string list \<Rightarrow> error + scan_state" where
  "scan lines = scan_from 0 lines initial_scan_state"

subsection \<open>Rebuilding both versions of the file\<close>

fun drain_unconflicted ::
  "string list \<Rightarrow> nat option \<Rightarrow> nat list \<Rightarrow> string list \<Rightarrow> string list
     \<Rightarrow> error + (nat list \<times> string list \<times> string list)" where
  \<comment> \<open>\<^verbatim>\<open>while len(unconflicted_line_idxs) > 0 and unconflicted_line_idxs[0] < conflict[0]\<close>\<close>
  "drain_unconflicted lines c0 [] ours theirs = Inr ([], ours, theirs)"
| "drain_unconflicted lines c0 (i # idxs) ours theirs =
     (case c0 of
        None \<Rightarrow> Inl NoneComparison
      | Some s \<Rightarrow>
          if i < s then
            (if i < length lines then
               drain_unconflicted lines c0 idxs
                 (ours @ chars_of (lines ! i)) (theirs @ chars_of (lines ! i))
             else Inl LineIndexError)
          else Inr (i # idxs, ours, theirs))"

fun splice_conflicts ::
  "string list \<Rightarrow> conflict list \<Rightarrow> nat list \<Rightarrow> string list \<Rightarrow> string list
     \<Rightarrow> error + (string list \<times> string list)" where
  \<comment> \<open>\<^verbatim>\<open>for conflict in conflicts\<close>\<close>
  "splice_conflicts lines [] idxs ours theirs = Inr (ours, theirs)"
| "splice_conflicts lines ((c0, c1, c2, c3) # cs) idxs ours theirs =
     (case drain_unconflicted lines c0 idxs ours theirs of
        Inl e \<Rightarrow> Inl e
      | Inr (idxs', ours', theirs') \<Rightarrow>
          splice_conflicts lines cs idxs'
            (ours' @ py_slice lines c0 c1) (theirs' @ py_slice lines c2 c3))"

definition reconstruct :: "string list \<Rightarrow> scan_state \<Rightarrow> error + (string list \<times> string list)" where
  \<comment> \<open>lines 97 to 107: \<open>our_file_lines\<close> and \<open>their_file_lines\<close>\<close>
  "reconstruct lines st =
     (case splice_conflicts lines (conflicts st) (unconflicted_line_idxs st)
             (py_slice lines None (unconflicted_start_until_idx st))
             (py_slice lines None (unconflicted_start_until_idx st)) of
        Inl e \<Rightarrow> Inl e
      | Inr (ours, theirs) \<Rightarrow>
          Inr (ours @ py_slice lines (unconflicted_end_from_idx st) None,
               theirs @ py_slice lines (unconflicted_end_from_idx st) None))"

subsection \<open>Annotations and parsed values\<close>

record 'p annotation =
  ann_id :: string
    \<comment> \<open>\<^verbatim>\<open>annotation["id"]\<close>\<close>
  ann_markup_timestamp :: "string option"
    \<comment> \<open>\<^verbatim>\<open>annotation["body"]["properties"]["system"][CATMA_MARKUPTIMESTAMP_UUID][0]\<close>\<close>
  ann_rest :: 'p
    \<comment> \<open>everything else in the object\<close>

text \<open>
  What \<^verbatim>\<open>json.load\<close> returns, by what lines 122 to 145 do with it:
  \<^item> an array whose elements are all objects with a string \<^verbatim>\<open>"id"\<close>: the
    comprehensions of lines 122 and 123 run through it, and it has \<^verbatim>\<open>reverse()\<close>;
  \<^item> the empty object \<^verbatim>\<open>{}\<close> or the empty string: iterating it yields nothing, so
    the comprehensions and loops treat it as an empty array, but it has no
    \<^verbatim>\<open>reverse()\<close>;
  \<^item> any other value (a number, \<^verbatim>\<open>true\<close>, \<^verbatim>\<open>false\<close>, \<^verbatim>\<open>null\<close>, a
    non-empty object or string, an array with an element that is not an object with a
    string \<^verbatim>\<open>"id"\<close>): lines 122 to 124 raise.
\<close>

datatype 'p json_value =
    AnnotationArray "'p annotation list"
  | EmptyObjectOrString
  | OtherValue

definition annotations_of :: "'p json_value \<Rightarrow> error + 'p annotation list" where
  \<comment> \<open>the annotations that \<^verbatim>\<open>for annotation in value\<close> of lines 122 to 134 runs through\<close>
  "annotations_of v =
     (case v of
        AnnotationArray annotations \<Rightarrow> Inr annotations
      | EmptyObjectOrString \<Rightarrow> Inr []
      | OtherValue \<Rightarrow> Inl AnnotationAccessError)"

definition id_suffix :: "'p annotation \<Rightarrow> string" where
  \<comment> \<open>\<^verbatim>\<open>annotation["id"][-42:]\<close>: the last 42 characters, the whole string when it is shorter\<close>
  "id_suffix a = drop (length (ann_id a) - 42) (ann_id a)"

definition markup_time :: "(string \<Rightarrow> 't option) \<Rightarrow> 'p annotation \<Rightarrow> 't option" where
  \<comment> \<open>\<^verbatim>\<open>datetime.fromisoformat(annotation["body"]...[0])\<close>, \<open>None\<close> when it raises\<close>
  "markup_time fromisoformat a =
     (case ann_markup_timestamp a of None \<Rightarrow> None | Some s \<Rightarrow> fromisoformat s)"

subsection \<open>Their new and their mismatched annotations\<close>

definition mismatch_message :: "string \<Rightarrow> string" where
  \<comment> \<open>the f-string of line 139\<close>
  "mismatch_message i = ''WARNING: Mismatch in annotations with ID '' @ i @ '', check manually''"

definition their_new_annotations ::
  "(string set \<Rightarrow> string list) \<Rightarrow> 'p annotation list \<Rightarrow> 'p annotation list \<Rightarrow> 'p annotation list" where
  \<comment> \<open>lines 122 to 126\<close>
  "their_new_annotations materialize our_annotations their_annotations =
     (let our_annotation_ids = map id_suffix our_annotations;
          their_annotation_ids = map id_suffix their_annotations;
          their_new_annotation_ids = materialize (set their_annotation_ids - set our_annotation_ids)
      in filter (\<lambda>annotation. id_suffix annotation \<in> set their_new_annotation_ids) their_annotations)"

definition compare_their ::
  "'p annotation \<Rightarrow> 'p annotation list \<times> string list \<Rightarrow> 'p annotation
     \<Rightarrow> 'p annotation list \<times> string list" where
  \<comment> \<open>the body of \<^verbatim>\<open>for their_annotation in their_annotations\<close>, on the pair of
      \<^verbatim>\<open>their_new_annotations\<close> and the lines printed so far\<close>
  "compare_their our_annotation acc their_annotation =
     (if id_suffix their_annotation \<noteq> id_suffix our_annotation then acc
      else if their_annotation \<noteq> our_annotation then
        (fst acc @ [their_annotation], snd acc @ [mismatch_message (id_suffix our_annotation)])
      else acc)"

definition compare_our ::
  "string list \<Rightarrow> 'p annotation list \<Rightarrow> 'p annotation list \<times> string list \<Rightarrow> 'p annotation
     \<Rightarrow> 'p annotation list \<times> string list" where
  \<comment> \<open>the body of \<^verbatim>\<open>for our_annotation in our_annotations\<close>\<close>
  "compare_our both_annotation_ids their_annotations acc our_annotation =
     (if id_suffix our_annotation \<notin> set both_annotation_ids then acc
      else foldl (compare_their our_annotation) acc their_annotations)"

definition annotations_to_insert ::
  "(string set \<Rightarrow> string list) \<Rightarrow> 'p annotation list \<Rightarrow> 'p annotation list
     \<Rightarrow> 'p annotation list \<times> string list" where
  \<comment> \<open>lines 122 to 142: the final \<^verbatim>\<open>their_new_annotations\<close> and the printed lines\<close>
  "annotations_to_insert materialize our_annotations their_annotations =
     (let our_annotation_ids = map id_suffix our_annotations;
          their_annotation_ids = map id_suffix their_annotations;
          both_annotation_ids = materialize (set their_annotation_ids \<inter> set our_annotation_ids)
      in foldl (compare_our both_annotation_ids their_annotations)
           (their_new_annotations materialize our_annotations their_annotations, [])
           our_annotations)"

subsection \<open>Inserting by timestamp\<close>

text \<open>
  The inner \<^verbatim>\<open>for idx, our_annotation in enumerate(our_annotations)\<close>. A Python list
  iterator reads the length of the list again at every step, so the \<^verbatim>\<open>append\<close> in the
  \<^verbatim>\<open>else\<close> branch, which is not followed by a \<^verbatim>\<open>break\<close>, gives the loop one more
  element to visit. The function returns the list and \<^verbatim>\<open>was_added\<close>.
\<close>

function insert_loop ::
  "(string \<Rightarrow> 't::linorder option) \<Rightarrow> 'p annotation \<Rightarrow> 'p annotation list \<Rightarrow> nat \<Rightarrow> bool
     \<Rightarrow> error + ('p annotation list \<times> bool)" where
  "insert_loop fromisoformat their_new_annotation our_annotations idx was_added =
     (if idx < length our_annotations then
        (case markup_time fromisoformat (our_annotations ! idx) of
           None \<Rightarrow> Inl InvalidTimestamp
         | Some t_our \<Rightarrow>
             (case markup_time fromisoformat their_new_annotation of
                None \<Rightarrow> Inl InvalidTimestamp
              | Some t_their \<Rightarrow>
                  if t_our \<le> t_their then
                    Inr (take idx our_annotations @ their_new_annotation # drop idx our_annotations,
                         True)
                  else if idx = length our_annotations - 1 then
                    insert_loop fromisoformat their_new_annotation
                      (our_annotations @ [their_new_annotation]) (Suc idx) True
                  else
                    insert_loop fromisoformat their_new_annotation our_annotations (Suc idx)
                      was_added))
      else Inr (our_annotations, was_added))"
  by pat_completeness auto

definition loop_measure ::
  "(string \<Rightarrow> 't::linorder option) \<Rightarrow> 'p annotation \<Rightarrow> 'p annotation list \<Rightarrow> nat \<Rightarrow> nat" where
  \<comment> \<open>twice the number of elements still to visit, less one when the element at \<open>idx\<close> ends the loop\<close>
  "loop_measure fromisoformat r w idx =
     2 * (length w - idx) -
     (if idx < length w \<and>
         (case (markup_time fromisoformat (w ! idx), markup_time fromisoformat r) of
            (Some a, Some b) \<Rightarrow> a \<le> b
          | _ \<Rightarrow> True)
      then 1 else 0)"

termination insert_loop
proof (relation "measure (\<lambda>(f, r, w, idx, wa). loop_measure f r w idx)")
  show "wf (measure (\<lambda>(f, r, w, idx, wa). loop_measure f r w idx))"
    by simp
next
  fix fromisoformat :: "string \<Rightarrow> 't::linorder option" and r :: "'p annotation"
    and w :: "'p annotation list" and idx and was_added :: bool and a b :: 't
  assume "idx < length w" "markup_time fromisoformat (w ! idx) = Some a"
    "markup_time fromisoformat r = Some b" "\<not> a \<le> b" "idx = length w - 1"
  then show "((fromisoformat, r, w @ [r], Suc idx, True), (fromisoformat, r, w, idx, was_added))
              \<in> measure (\<lambda>(f, r, w, idx, wa). loop_measure f r w idx)"
    by (cases w rule: rev_cases) (simp_all add: loop_measure_def nth_append)
next
  fix fromisoformat :: "string \<Rightarrow> 't::linorder option" and r :: "'p annotation"
    and w :: "'p annotation list" and idx and was_added :: bool and a b :: 't
  assume "idx < length w" "markup_time fromisoformat (w ! idx) = Some a"
    "markup_time fromisoformat r = Some b" "\<not> a \<le> b" "idx \<noteq> length w - 1"
  then show "((fromisoformat, r, w, Suc idx, was_added), (fromisoformat, r, w, idx, was_added))
              \<in> measure (\<lambda>(f, r, w, idx, wa). loop_measure f r w idx)"
    by (simp add: loop_measure_def split: if_splits)
qed

fun insert_all ::
  "(string \<Rightarrow> 't::linorder option) \<Rightarrow> 'p annotation list \<Rightarrow> 'p annotation list
     \<Rightarrow> error + 'p annotation list" where
  \<comment> \<open>\<^verbatim>\<open>for their_new_annotation in their_new_annotations\<close>\<close>
  "insert_all fromisoformat [] our_annotations = Inr our_annotations"
| "insert_all fromisoformat (their_new_annotation # rest) our_annotations =
     (case insert_loop fromisoformat their_new_annotation our_annotations 0 False of
        Inl e \<Rightarrow> Inl e
      | Inr (our_annotations', was_added) \<Rightarrow>
          if \<not> was_added then Inl FailedToAddAnnotation
          else insert_all fromisoformat rest our_annotations')"

definition merge_annotations ::
  "(string \<Rightarrow> 't::linorder option) \<Rightarrow> 'p annotation list \<Rightarrow> 'p annotation list
     \<Rightarrow> error + 'p annotation list" where
  \<comment> \<open>lines 145 to 168: reverse, insert each new annotation, reverse again\<close>
  "merge_annotations fromisoformat our_annotations their_new =
     (case insert_all fromisoformat their_new (rev our_annotations) of
        Inl e \<Rightarrow> Inl e
      | Inr merged \<Rightarrow> Inr (rev merged))"

subsection \<open>The whole run\<close>

record 'p outcome =
  our_file :: "string option"
    \<comment> \<open>the text written to \<^verbatim>\<open>our_file\<close>, \<open>None\<close> when the run has not opened it\<close>
  their_file :: "string option"
  merged_file :: "'p annotation list option"
    \<comment> \<open>the list handed to \<^verbatim>\<open>json.dump\<close> for \<^verbatim>\<open>merged_file\<close>\<close>
  stdout :: "string list"
    \<comment> \<open>the lines printed\<close>
  failure :: "error option"
    \<comment> \<open>the exception that ended the run, \<open>None\<close> when \<^verbatim>\<open>resolve\<close> returned\<close>

definition nothing_written :: "error \<Rightarrow> 'p outcome" where
  "nothing_written e =
     \<lparr>our_file = None, their_file = None, merged_file = None, stdout = [], failure = Some e\<rparr>"

definition resolve_annotations ::
  "(string \<Rightarrow> 't::linorder option) \<Rightarrow> (string set \<Rightarrow> string list)
     \<Rightarrow> 'p annotation list \<Rightarrow> 'p annotation list \<Rightarrow> string list \<times> (error + 'p annotation list)" where
  \<comment> \<open>lines 122 to 168, from the two parsed lists: the printed lines and the merged list\<close>
  "resolve_annotations fromisoformat materialize our_annotations their_annotations =
     (let (their_new, printed) = annotations_to_insert materialize our_annotations their_annotations
      in (printed, merge_annotations fromisoformat our_annotations their_new))"

definition resolve ::
  "(string \<Rightarrow> 'p json_value option) \<Rightarrow> (string \<Rightarrow> 't::linorder option)
     \<Rightarrow> (string set \<Rightarrow> string list) \<Rightarrow> string list \<Rightarrow> 'p outcome" where
  "resolve json_load fromisoformat materialize lines =
     (case scan lines of
        Inl e \<Rightarrow> nothing_written e
      | Inr st \<Rightarrow>
          (case reconstruct lines st of
             Inl e \<Rightarrow> nothing_written e
           | Inr (our_file_lines, their_file_lines) \<Rightarrow>
               let written = \<lparr>our_file = Some (concat our_file_lines),
                               their_file = Some (concat their_file_lines),
                               merged_file = None, stdout = [], failure = None\<rparr>
               in (case json_load (concat our_file_lines) of
                     None \<Rightarrow> written\<lparr>failure := Some JSONDecodeError\<rparr>
                   | Some our_value \<Rightarrow>
                       (case json_load (concat their_file_lines) of
                          None \<Rightarrow> written\<lparr>failure := Some JSONDecodeError\<rparr>
                        | Some their_value \<Rightarrow>
                            (case annotations_of our_value of
                               Inl e \<Rightarrow> written\<lparr>failure := Some e\<rparr>
                             | Inr our_annotations \<Rightarrow>
                                 (case annotations_of their_value of
                                    Inl e \<Rightarrow> written\<lparr>failure := Some e\<rparr>
                                  | Inr their_annotations \<Rightarrow>
                                      (case our_value of
                                         AnnotationArray _ \<Rightarrow>
                                           (case resolve_annotations fromisoformat materialize
                                                   our_annotations their_annotations of
                                              (printed, Inl e) \<Rightarrow>
                                                written\<lparr>stdout := printed, failure := Some e\<rparr>
                                            | (printed, Inr merged) \<Rightarrow>
                                                written\<lparr>stdout := printed,
                                                        merged_file := Some merged\<rparr>)
                                       | _ \<Rightarrow>
                                           written\<lparr>stdout :=
                                                     snd (annotations_to_insert materialize
                                                            our_annotations their_annotations),
                                                   failure := Some NoReverseMethod\<rparr>)))))))"

section \<open>Closed forms and sample data\<close>

text \<open>
  \<open>place k r w\<close> is what one pass of the inner loop makes of a non-empty list \<open>w\<close> whose
  timestamps are \<open>k\<close>: the new annotation goes before the first element that is not
  later than it; when every element is later, it is appended and then inserted again
  before its own copy.
\<close>

definition place :: "('a \<Rightarrow> 't::linorder) \<Rightarrow> 'a \<Rightarrow> 'a list \<Rightarrow> 'a list" where
  "place k r w =
     (if \<exists>e\<in>set w. k e \<le> k r
      then takeWhile (\<lambda>e. \<not> k e \<le> k r) w @ r # dropWhile (\<lambda>e. \<not> k e \<le> k r) w
      else w @ [r, r])"

abbreviation descending :: "('a \<Rightarrow> 't::linorder) \<Rightarrow> 'a list \<Rightarrow> bool" where
  "descending k w \<equiv> sorted_wrt (\<lambda>a b. k b \<le> k a) w"

text \<open>
  Their versions of the annotations that share the identity of \<open>our\<close> and differ from it:
  what the inner comparison loop appends for one of our annotations.
\<close>

definition mismatched_with :: "'p annotation \<Rightarrow> 'p annotation list \<Rightarrow> 'p annotation list" where
  "mismatched_with our theirs = filter (\<lambda>their. id_suffix their = id_suffix our \<and> their \<noteq> our) theirs"

text \<open>
  Sample data for the concrete instances below: a table of three timestamps standing for
  \<^verbatim>\<open>datetime.fromisoformat\<close> (the hour as the instant), annotations with a string as
  the rest of the object, a table standing for \<^verbatim>\<open>json.load\<close> that knows the empty
  array, the empty object and a number and rejects the other texts used below (none of
  which is JSON), and two enumerations of a set of strings.
\<close>

definition sample_fromisoformat :: "string \<Rightarrow> nat option" where
  "sample_fromisoformat =
     map_of [(''2024-05-01T10:00:00'', 10), (''2024-05-01T11:00:00'', 11),
             (''2024-05-01T12:00:00'', 12)]"

definition sample_annotation :: "string \<Rightarrow> string \<Rightarrow> string \<Rightarrow> string annotation" where
  "sample_annotation i t rest = \<lparr>ann_id = i, ann_markup_timestamp = Some t, ann_rest = rest\<rparr>"

definition sample_time :: "string annotation \<Rightarrow> nat" where
  "sample_time a = (case markup_time sample_fromisoformat a of None \<Rightarrow> 0 | Some t \<Rightarrow> t)"

definition sample_json_load :: "string \<Rightarrow> string json_value option" where
  "sample_json_load =
     map_of [(''[]\<newline>'', AnnotationArray []), (''{}\<newline>'', EmptyObjectOrString),
             (''7\<newline>'', OtherValue)]"

definition descending_list_of_set :: "string set \<Rightarrow> string list" where
  "descending_list_of_set S = rev (sorted_list_of_set S)"

section \<open>The insertion loop\<close>

text \<open>
  With all timestamps readable, the loop started at \<open>idx\<close> either inserts before the
  first element from \<open>idx\<close> on that is not later than the new annotation, or, when there
  is none and the list is not exhausted, appends and inserts once more.
\<close>

lemma insert_loop_from:
  assumes "\<forall>a\<in>set w. markup_time f a = Some (k a)" and "markup_time f r = Some (k r)"
    and "idx \<le> length w"
  shows "insert_loop f r w idx wa =
     (if \<exists>e\<in>set (drop idx w). k e \<le> k r
      then Inr (take idx w @ takeWhile (\<lambda>e. \<not> k e \<le> k r) (drop idx w)
                  @ r # dropWhile (\<lambda>e. \<not> k e \<le> k r) (drop idx w), True)
      else if idx < length w then Inr (w @ [r, r], True)
      else Inr (w, wa))"
  using assms
proof (induction f r w idx wa rule: insert_loop.induct)
  case (1 f r w idx wa)
  show ?case
  proof (cases "idx < length w")
    case False
    then show ?thesis by (subst insert_loop.simps) simp
  next
    case True
    then have e0: "markup_time f (w ! idx) = Some (k (w ! idx))"
      using "1.prems"(1) by simp
    have dr: "drop idx w = w ! idx # drop (Suc idx) w"
      using True by (simp add: Cons_nth_drop_Suc)
    show ?thesis
    proof (cases "k (w ! idx) \<le> k r")
      case le: True
      then show ?thesis
        using True e0 "1.prems"(2) dr by (subst insert_loop.simps) simp
    next
      case nle: False
      show ?thesis
      proof (cases "idx = length w - 1")
        case last: True
        have pre: "\<forall>a\<in>set (w @ [r]). markup_time f a = Some (k a)"
          using "1.prems" by simp
        have ih: "insert_loop f r (w @ [r]) (Suc idx) True = Inr (w @ [r, r], True)"
          using "1.IH"(1)[OF True e0 "1.prems"(2) nle last pre "1.prems"(2)] True last
          by simp
        have dl: "drop idx w = [w ! idx]"
          using dr True last by simp
        show ?thesis
          using True e0 "1.prems"(2) nle last ih dl
          by (subst insert_loop.simps) simp
      next
        case notlast: False
        have ih: "insert_loop f r w (Suc idx) wa =
           (if \<exists>e\<in>set (drop (Suc idx) w). k e \<le> k r
            then Inr (take (Suc idx) w @ takeWhile (\<lambda>e. \<not> k e \<le> k r) (drop (Suc idx) w)
                  @ r # dropWhile (\<lambda>e. \<not> k e \<le> k r) (drop (Suc idx) w), True)
            else if Suc idx < length w then Inr (w @ [r, r], True)
            else Inr (w, wa))"
          using "1.IH"(2)[OF True e0 "1.prems"(2) nle notlast "1.prems"(1) "1.prems"(2)] True
          by simp
        have lt: "Suc idx < length w" using True notlast by arith
        show ?thesis
          using True e0 "1.prems"(2) nle notlast ih lt dr
          by (subst insert_loop.simps) (simp add: take_Suc_conv_app_nth)
      qed
    qed
  qed
qed

lemma insert_loop_place:
  assumes "\<forall>a\<in>set w. markup_time f a = Some (k a)" and "markup_time f r = Some (k r)"
    and "w \<noteq> []"
  shows "insert_loop f r w 0 False = Inr (place k r w, True)"
  using insert_loop_from[OF assms(1,2), of 0 False] assms(3)
  by (simp add: place_def)

lemma insert_loop_empty: "insert_loop f r [] 0 False = Inr ([], False)"
  by (subst insert_loop.simps) simp

lemma set_take_drop_while: "set (takeWhile P w) \<union> set (dropWhile P w) = set w"
  by (metis set_append takeWhile_dropWhile_id)

lemma set_place: "set (place k r w) = insert r (set w)"
  by (simp add: place_def set_take_drop_while)

lemma place_not_empty: "place k r w \<noteq> []"
  by (simp add: place_def)

lemma insert_all_place:
  assumes "\<forall>a\<in>set w \<union> set rs. markup_time f a = Some (k a)" and "w \<noteq> []"
  shows "insert_all f rs w = Inr (foldl (\<lambda>w r. place k r w) w rs)"
  using assms
proof (induction rs arbitrary: w)
  case Nil
  then show ?case by simp
next
  case (Cons r rs)
  have step: "insert_loop f r w 0 False = Inr (place k r w, True)"
    using Cons.prems by (intro insert_loop_place) auto
  have "insert_all f rs (place k r w) = Inr (foldl (\<lambda>w r. place k r w) (place k r w) rs)"
    using Cons.prems by (intro Cons.IH) (auto simp: set_place place_not_empty)
  then show ?case using step by simp
qed


lemma insert_all_empty_base:
  "insert_all f (r # rs) [] = Inl FailedToAddAnnotation"
  by (simp add: insert_loop_empty)

lemma descending_insert_before:
  assumes "descending k w" and "\<exists>e\<in>set w. k e \<le> k r"
  shows "descending k (takeWhile (\<lambda>e. \<not> k e \<le> k r) w @ r # dropWhile (\<lambda>e. \<not> k e \<le> k r) w)"
  using assms
proof (induction w)
  case Nil
  then show ?case by simp
next
  case (Cons a w)
  show ?case
  proof (cases "k a \<le> k r")
    case True
    have "\<forall>y\<in>set w. k y \<le> k r"
      using Cons.prems(1) True by fastforce
    then show ?thesis using Cons.prems(1) True by simp
  next
    case False
    then have ex: "\<exists>e\<in>set w. k e \<le> k r"
      using Cons.prems(2) by simp
    have tail: "descending k w" and above: "\<forall>y\<in>set w. k y \<le> k a"
      using Cons.prems(1) by simp_all
    have ih: "descending k (takeWhile (\<lambda>e. \<not> k e \<le> k r) w @ r # dropWhile (\<lambda>e. \<not> k e \<le> k r) w)"
      using tail ex by (rule Cons.IH)
    have sub: "set (takeWhile (\<lambda>e. \<not> k e \<le> k r) w) \<union> set (dropWhile (\<lambda>e. \<not> k e \<le> k r) w) = set w"
      by (rule set_take_drop_while)
    have "k r \<le> k a" using False by simp
    then have "\<forall>y\<in>set (takeWhile (\<lambda>e. \<not> k e \<le> k r) w @ r # dropWhile (\<lambda>e. \<not> k e \<le> k r) w). k y \<le> k a"
      using above sub by auto
    then show ?thesis using ih False by simp
  qed
qed

lemma descending_append_twice:
  assumes "descending k w" and "\<not> (\<exists>e\<in>set w. k e \<le> k r)"
  shows "descending k (w @ [r, r])"
proof -
  have "\<forall>x\<in>set w. k r \<le> k x"
    using assms(2) by auto
  then show ?thesis using assms(1) by (simp add: sorted_wrt_append)
qed

lemma descending_place:
  assumes "descending k w"
  shows "descending k (place k r w)"
  using assms descending_insert_before[of k w r] descending_append_twice[of k w r]
  by (simp add: place_def)

lemma descending_foldl_place:
  "descending k w \<Longrightarrow> descending k (foldl (\<lambda>w r. place k r w) w rs)"
  by (induction rs arbitrary: w) (simp_all add: descending_place)


lemma filter_place:
  assumes "e \<in> set w" and "k e = t"
  shows "filter (\<lambda>x. k x = t) (place k r w) =
         (if k r = t then r # filter (\<lambda>x. k x = t) w else filter (\<lambda>x. k x = t) w)"
proof (cases "\<exists>e\<in>set w. k e \<le> k r")
  case False
  then have "k r \<noteq> t" using assms by auto
  then show ?thesis using False by (simp add: place_def)
next
  case True
  let ?P = "\<lambda>e. \<not> k e \<le> k r"
  have whole: "filter (\<lambda>x. k x = t) w =
      filter (\<lambda>x. k x = t) (takeWhile ?P w) @ filter (\<lambda>x. k x = t) (dropWhile ?P w)"
    by (metis filter_append takeWhile_dropWhile_id)
  have "k r = t \<Longrightarrow> filter (\<lambda>x. k x = t) (takeWhile ?P w) = []"
    by (auto simp: filter_empty_conv dest!: set_takeWhileD)
  then show ?thesis using True whole by (simp add: place_def)
qed

lemma filter_foldl_place:
  assumes "e \<in> set w" and "k e = t"
  shows "filter (\<lambda>x. k x = t) (foldl (\<lambda>w r. place k r w) w rs) =
         rev (filter (\<lambda>x. k x = t) rs) @ filter (\<lambda>x. k x = t) w"
  using assms
proof (induction rs arbitrary: w)
  case Nil
  then show ?case by simp
next
  case (Cons r rs)
  have mem: "e \<in> set (place k r w)" using Cons.prems by (simp add: set_place)
  have step: "filter (\<lambda>x. k x = t) (place k r w) =
         (if k r = t then r # filter (\<lambda>x. k x = t) w else filter (\<lambda>x. k x = t) w)"
    using Cons.prems by (rule filter_place)
  have "filter (\<lambda>x. k x = t) (foldl (\<lambda>w r. place k r w) (place k r w) rs) =
         rev (filter (\<lambda>x. k x = t) rs) @ filter (\<lambda>x. k x = t) (place k r w)"
    using mem Cons.prems(2) by (rule Cons.IH)
  then show ?case using step by simp
qed

lemma merge_annotations_place:
  assumes "\<forall>a\<in>set ours \<union> set their_new. markup_time f a = Some (k a)" and "ours \<noteq> []"
  shows "merge_annotations f ours their_new =
         Inr (rev (foldl (\<lambda>w r. place k r w) (rev ours) their_new))"
proof -
  have "insert_all f their_new (rev ours) = Inr (foldl (\<lambda>w r. place k r w) (rev ours) their_new)"
    using assms by (intro insert_all_place) auto
  then show ?thesis by (simp add: merge_annotations_def)
qed

lemma merge_annotations_nothing_new: "merge_annotations f ours [] = Inr ours"
  by (simp add: merge_annotations_def)


section \<open>The comparison loops\<close>

lemma foldl_compare_their:
  "foldl (compare_their our) acc theirs =
     (fst acc @ mismatched_with our theirs,
      snd acc @ map (\<lambda>their. mismatch_message (id_suffix our)) (mismatched_with our theirs))"
  by (induction theirs arbitrary: acc) (simp_all add: compare_their_def mismatched_with_def)

lemma foldl_compare_our:
  "foldl (compare_our both theirs) acc ours =
     (fst acc @ concat (map (\<lambda>our. if id_suffix our \<in> set both then mismatched_with our theirs else []) ours),
      snd acc @ concat (map (\<lambda>our. if id_suffix our \<in> set both
                 then map (\<lambda>their. mismatch_message (id_suffix our)) (mismatched_with our theirs)
                 else []) ours))"
  by (induction ours arbitrary: acc) (simp_all add: compare_our_def foldl_compare_their)

lemma their_new_annotations_filter:
  assumes "\<forall>S. finite S \<longrightarrow> set (materialize S) = S"
  shows "their_new_annotations materialize ours theirs =
         filter (\<lambda>a. id_suffix a \<notin> id_suffix ` set ours) theirs"
proof -
  have "set (materialize (set (map id_suffix theirs) - set (map id_suffix ours)))
        = set (map id_suffix theirs) - set (map id_suffix ours)"
    using assms by simp
  then have "their_new_annotations materialize ours theirs =
     filter (\<lambda>a. id_suffix a \<in> set (map id_suffix theirs) - set (map id_suffix ours)) theirs"
    by (simp add: their_new_annotations_def Let_def)
  also have "\<dots> = filter (\<lambda>a. id_suffix a \<notin> id_suffix ` set ours) theirs"
    by (rule filter_cong) auto
  finally show ?thesis .
qed

lemma annotations_to_insert_closed:
  assumes "\<forall>S. finite S \<longrightarrow> set (materialize S) = S"
  shows "annotations_to_insert materialize ours theirs =
     (filter (\<lambda>a. id_suffix a \<notin> id_suffix ` set ours) theirs
        @ concat (map (\<lambda>our. mismatched_with our theirs) ours),
      concat (map (\<lambda>our. map (\<lambda>their. mismatch_message (id_suffix our)) (mismatched_with our theirs)) ours))"
proof -
  let ?both = "materialize (set (map id_suffix theirs) \<inter> set (map id_suffix ours))"
  have both: "set ?both = set (map id_suffix theirs) \<inter> set (map id_suffix ours)"
    using assms by simp
  have drop_guard: "(if id_suffix our \<in> set ?both then mismatched_with our theirs else []) =
         mismatched_with our theirs" if "our \<in> set ours" for our
  proof (cases "id_suffix our \<in> set ?both")
    case True
    then show ?thesis by simp
  next
    case False
    then have "id_suffix our \<notin> id_suffix ` set theirs"
      using that both by auto
    then have "\<forall>their\<in>set theirs. id_suffix their \<noteq> id_suffix our"
      by (metis imageI)
    then have "mismatched_with our theirs = []"
      by (simp add: mismatched_with_def filter_empty_conv)
    then show ?thesis by simp
  qed
  have g1: "map (\<lambda>our. if id_suffix our \<in> set ?both then mismatched_with our theirs else []) ours
            = map (\<lambda>our. mismatched_with our theirs) ours"
  proof (rule map_cong)
    fix our assume "our \<in> set ours"
    then show "(if id_suffix our \<in> set ?both then mismatched_with our theirs else []) =
         mismatched_with our theirs"
      by (rule drop_guard)
  qed simp
  have g2: "map (\<lambda>our. if id_suffix our \<in> set ?both
                 then map (\<lambda>their. mismatch_message (id_suffix our)) (mismatched_with our theirs)
                 else []) ours
          = map (\<lambda>our. map (\<lambda>their. mismatch_message (id_suffix our)) (mismatched_with our theirs)) ours"
  proof (rule map_cong)
    fix our assume "our \<in> set ours"
    from drop_guard[OF this]
    show "(if id_suffix our \<in> set ?both
                 then map (\<lambda>their. mismatch_message (id_suffix our)) (mismatched_with our theirs)
                 else []) = map (\<lambda>their. mismatch_message (id_suffix our)) (mismatched_with our theirs)"
      by (cases "id_suffix our \<in> set ?both") simp_all
  qed simp
  show ?thesis
    unfolding annotations_to_insert_def Let_def foldl_compare_our g1 g2
    by (simp add: their_new_annotations_filter[OF assms])
qed

lemma their_new_annotations_cong:
  assumes "\<forall>S. finite S \<longrightarrow> set (m1 S) = S" and "\<forall>S. finite S \<longrightarrow> set (m2 S) = S"
  shows "their_new_annotations m1 ours theirs = their_new_annotations m2 ours theirs"
  by (simp add: their_new_annotations_filter[OF assms(1)] their_new_annotations_filter[OF assms(2)])

lemma annotations_to_insert_cong:
  assumes "\<forall>S. finite S \<longrightarrow> set (m1 S) = S" and "\<forall>S. finite S \<longrightarrow> set (m2 S) = S"
  shows "annotations_to_insert m1 ours theirs = annotations_to_insert m2 ours theirs"
  by (simp add: annotations_to_insert_closed[OF assms(1)] annotations_to_insert_closed[OF assms(2)])

section \<open>Scanning a text without markers\<close>

lemma scan_from_unmarked:
  assumes "\<forall>line\<in>set lines. \<not> startswith line HEAD_MARKER \<and> \<not> startswith line SEPARATOR
             \<and> \<not> startswith line MASTER_MARKER"
  shows "scan_from idx lines st = Inr st"
  using assms by (induction lines arbitrary: idx) (simp_all add: scan_line_def)

lemma py_slice_whole: "py_slice xs None None = xs"
  by (simp add: py_slice_def)

lemma reconstruct_initial:
  "reconstruct lines initial_scan_state = Inr (lines @ lines, lines @ lines)"
  by (simp add: reconstruct_def initial_scan_state_def py_slice_whole)

section \<open>What a run that reaches the parse has written\<close>

lemma resolve_files_written:
  assumes "scan lines = Inr st" and "reconstruct lines st = Inr (ours, theirs)"
  shows "our_file (resolve json_load f m lines) = Some (concat ours)"
    and "their_file (resolve json_load f m lines) = Some (concat theirs)"
  using assms
  by (simp_all add: resolve_def Let_def
      split: option.split sum.split json_value.split prod.split)

lemma compare_our_no_theirs: "foldl (compare_our both []) acc ours = acc"
  by (induction ours arbitrary: acc) (simp_all add: compare_our_def)

lemma annotations_to_insert_no_theirs: "annotations_to_insert m ours [] = ([], [])"
  by (simp add: annotations_to_insert_def their_new_annotations_def compare_our_no_theirs)

lemma annotations_to_insert_no_ours: "snd (annotations_to_insert m [] theirs) = []"
  by (simp add: annotations_to_insert_def)

section \<open>Properties of the merge\<close>

text \<open>
  C1, as the specification states it: with base \<open>[A@t1]\<close> and incoming \<open>[B@t1, C@t1]\<close> the
  merged list would be \<open>[B, C, A]\<close>, the incoming annotations before the existing one of
  equal timestamp. The code yields \<open>[A, B, C]\<close>: the insertion happens in the reversed
  list, before the first element that is not later, so after the final reversal the new
  annotation stands after the existing one.
\<close>

theorem tie_break_counterexample:
  "merge_annotations sample_fromisoformat
       [sample_annotation ''A'' ''2024-05-01T10:00:00'' ''a'']
       [sample_annotation ''B'' ''2024-05-01T10:00:00'' ''b'',
        sample_annotation ''C'' ''2024-05-01T10:00:00'' ''c'']
     = Inr [sample_annotation ''A'' ''2024-05-01T10:00:00'' ''a'',
            sample_annotation ''B'' ''2024-05-01T10:00:00'' ''b'',
            sample_annotation ''C'' ''2024-05-01T10:00:00'' ''c'']
   \<and> merge_annotations sample_fromisoformat
       [sample_annotation ''A'' ''2024-05-01T10:00:00'' ''a'']
       [sample_annotation ''B'' ''2024-05-01T10:00:00'' ''b'',
        sample_annotation ''C'' ''2024-05-01T10:00:00'' ''c'']
     \<noteq> Inr [sample_annotation ''B'' ''2024-05-01T10:00:00'' ''b'',
            sample_annotation ''C'' ''2024-05-01T10:00:00'' ''c'',
            sample_annotation ''A'' ''2024-05-01T10:00:00'' ''a'']"
  by (simp add: merge_annotations_def sample_fromisoformat_def sample_annotation_def markup_time_def)

text \<open>
  C1, amended: whenever an existing annotation \<open>e\<close> of our list has timestamp \<open>t\<close>, the
  merge succeeds and the annotations of timestamp \<open>t\<close> in the merged list are ours, in
  our order, followed by the incoming ones, in the order in which they were encountered.
  So an incoming annotation is placed after every existing one of equal timestamp, and
  incoming annotations of equal timestamp keep their encounter order. This holds for any
  list of ours, ascending or not.
\<close>

theorem equal_timestamp_goes_after_existing:
  assumes "\<forall>a\<in>set ours \<union> set their_new. markup_time f a = Some (k a)"
    and "e \<in> set ours"
  shows "\<exists>merged. merge_annotations f ours their_new = Inr merged \<and>
           filter (\<lambda>x. k x = k e) merged =
             filter (\<lambda>x. k x = k e) ours @ filter (\<lambda>x. k x = k e) their_new"
proof -
  have ne: "ours \<noteq> []" using assms(2) by auto
  have mem: "e \<in> set (rev ours)" using assms(2) by simp
  have "filter (\<lambda>x. k x = k e) (foldl (\<lambda>w r. place k r w) (rev ours) their_new) =
          rev (filter (\<lambda>x. k x = k e) their_new) @ filter (\<lambda>x. k x = k e) (rev ours)"
    using mem by (rule filter_foldl_place) simp
  then have "filter (\<lambda>x. k x = k e) (rev (foldl (\<lambda>w r. place k r w) (rev ours) their_new)) =
          filter (\<lambda>x. k x = k e) ours @ filter (\<lambda>x. k x = k e) their_new"
    by (simp add: rev_filter[symmetric])
  then show ?thesis
    using merge_annotations_place[OF assms(1) ne] by simp
qed

theorem equal_timestamp_goes_after_existing_witness:
  "\<exists>merged. merge_annotations sample_fromisoformat [sample_annotation ''A'' ''2024-05-01T10:00:00'' ''a'']
       [sample_annotation ''B'' ''2024-05-01T10:00:00'' ''b'',
        sample_annotation ''C'' ''2024-05-01T10:00:00'' ''c''] = Inr merged \<and>
     filter (\<lambda>x. sample_time x = sample_time (sample_annotation ''A'' ''2024-05-01T10:00:00'' ''a'')) merged =
       filter (\<lambda>x. sample_time x = sample_time (sample_annotation ''A'' ''2024-05-01T10:00:00'' ''a''))
         [sample_annotation ''A'' ''2024-05-01T10:00:00'' ''a''] @
       filter (\<lambda>x. sample_time x = sample_time (sample_annotation ''A'' ''2024-05-01T10:00:00'' ''a''))
         [sample_annotation ''B'' ''2024-05-01T10:00:00'' ''b'',
          sample_annotation ''C'' ''2024-05-01T10:00:00'' ''c'']"
proof -
  have h1: "\<forall>a\<in>set [sample_annotation ''A'' ''2024-05-01T10:00:00'' ''a''] \<union>
              set [sample_annotation ''B'' ''2024-05-01T10:00:00'' ''b'',
                   sample_annotation ''C'' ''2024-05-01T10:00:00'' ''c''].
            markup_time sample_fromisoformat a = Some (sample_time a)"
    by (simp add: sample_time_def sample_fromisoformat_def sample_annotation_def markup_time_def)
  have h2: "sample_annotation ''A'' ''2024-05-01T10:00:00'' ''a'' \<in> set [sample_annotation ''A'' ''2024-05-01T10:00:00'' ''a'']"
    by simp
  show ?thesis
    by (rule equal_timestamp_goes_after_existing[OF h1 h2])
qed

text \<open>
  C4: an incoming annotation older than everything in the working list is appended at the
  tail, but the \<^verbatim>\<open>append\<close> is not followed by a \<^verbatim>\<open>break\<close>: the loop goes on
  to the element it has just appended, finds it not later than itself and inserts the
  annotation a second time. The merged list below holds \<open>B\<close> twice. With an empty list
  of ours the loop body never runs and \<^verbatim>\<open>raise "Failed to add annotation"\<close> is
  reached.
\<close>

theorem oldest_annotation_is_inserted_twice:
  "merge_annotations sample_fromisoformat
       [sample_annotation ''A'' ''2024-05-01T12:00:00'' ''a'']
       [sample_annotation ''B'' ''2024-05-01T10:00:00'' ''b'']
     = Inr [sample_annotation ''B'' ''2024-05-01T10:00:00'' ''b'',
            sample_annotation ''B'' ''2024-05-01T10:00:00'' ''b'',
            sample_annotation ''A'' ''2024-05-01T12:00:00'' ''a'']
   \<and> merge_annotations sample_fromisoformat []
       [sample_annotation ''B'' ''2024-05-01T10:00:00'' ''b'']
     = Inl FailedToAddAnnotation"
  by (simp add: merge_annotations_def sample_fromisoformat_def sample_annotation_def markup_time_def)

text \<open>
  C6: when our list is ascending by timestamp and every timestamp is readable, the merge
  succeeds (our list being non-empty, or nothing being new) and every adjacent pair of
  the merged list is in ascending order of timestamp.
\<close>

theorem merged_is_chronological:
  assumes "\<forall>a\<in>set ours \<union> set their_new. markup_time f a = Some (k a)"
    and "sorted (map k ours)"
    and "ours \<noteq> [] \<or> their_new = []"
  shows "\<exists>merged. merge_annotations f ours their_new = Inr merged \<and>
           (\<forall>i. Suc i < length merged \<longrightarrow> k (merged ! i) \<le> k (merged ! Suc i))"
proof -
  have asc: "sorted_wrt (\<lambda>a b. k a \<le> k b) ours"
    using assms(2) by (simp add: sorted_map)
  have "\<exists>merged. merge_annotations f ours their_new = Inr merged \<and>
          sorted_wrt (\<lambda>a b. k a \<le> k b) merged"
  proof (cases "ours = []")
    case True
    then show ?thesis using assms(3) by (simp add: merge_annotations_nothing_new)
  next
    case False
    have "descending k (rev ours)"
      using asc by (simp add: sorted_wrt_rev)
    then have "descending k (foldl (\<lambda>w r. place k r w) (rev ours) their_new)"
      by (rule descending_foldl_place)
    then have "sorted_wrt (\<lambda>a b. k a \<le> k b) (rev (foldl (\<lambda>w r. place k r w) (rev ours) their_new))"
      by (simp add: sorted_wrt_rev)
    then show ?thesis
      using merge_annotations_place[OF assms(1) False] by simp
  qed
  then obtain merged where m: "merge_annotations f ours their_new = Inr merged"
    and s: "sorted_wrt (\<lambda>a b. k a \<le> k b) merged" by blast
  have "\<forall>i. Suc i < length merged \<longrightarrow> k (merged ! i) \<le> k (merged ! Suc i)"
    using s by (simp add: sorted_wrt_iff_nth_less)
  then show ?thesis using m by blast
qed

theorem merged_is_chronological_witness:
  "merge_annotations sample_fromisoformat
       [sample_annotation ''A'' ''2024-05-01T10:00:00'' ''a'',
        sample_annotation ''B'' ''2024-05-01T12:00:00'' ''b'']
       [sample_annotation ''C'' ''2024-05-01T11:00:00'' ''c'']
     = Inr [sample_annotation ''A'' ''2024-05-01T10:00:00'' ''a'',
            sample_annotation ''C'' ''2024-05-01T11:00:00'' ''c'',
            sample_annotation ''B'' ''2024-05-01T12:00:00'' ''b''] \<and>
   sample_time (sample_annotation ''A'' ''2024-05-01T10:00:00'' ''a'')
     \<le> sample_time (sample_annotation ''C'' ''2024-05-01T11:00:00'' ''c'') \<and>
   sample_time (sample_annotation ''C'' ''2024-05-01T11:00:00'' ''c'')
     \<le> sample_time (sample_annotation ''B'' ''2024-05-01T12:00:00'' ''b'')"
proof -
  let ?ours = "[sample_annotation ''A'' ''2024-05-01T10:00:00'' ''a'',
                sample_annotation ''B'' ''2024-05-01T12:00:00'' ''b'']"
  let ?new = "[sample_annotation ''C'' ''2024-05-01T11:00:00'' ''c'']"
  have h1: "\<forall>a\<in>set ?ours \<union> set ?new. markup_time sample_fromisoformat a = Some (sample_time a)"
    by (simp add: sample_time_def sample_fromisoformat_def sample_annotation_def markup_time_def)
  have h2: "sorted (map sample_time ?ours)"
    by (simp add: sample_time_def sample_fromisoformat_def sample_annotation_def markup_time_def)
  have h3: "?ours \<noteq> [] \<or> ?new = []" by simp
  obtain merged where m: "merge_annotations sample_fromisoformat ?ours ?new = Inr merged"
    and adj: "\<forall>i. Suc i < length merged \<longrightarrow> sample_time (merged ! i) \<le> sample_time (merged ! Suc i)"
    using merged_is_chronological[OF h1 h2 h3] by blast
  have e: "merge_annotations sample_fromisoformat ?ours ?new
     = Inr [sample_annotation ''A'' ''2024-05-01T10:00:00'' ''a'',
            sample_annotation ''C'' ''2024-05-01T11:00:00'' ''c'',
            sample_annotation ''B'' ''2024-05-01T12:00:00'' ''b'']"
    by (simp add: merge_annotations_def sample_fromisoformat_def sample_annotation_def markup_time_def)
  then have "merged = [sample_annotation ''A'' ''2024-05-01T10:00:00'' ''a'',
            sample_annotation ''C'' ''2024-05-01T11:00:00'' ''c'',
            sample_annotation ''B'' ''2024-05-01T12:00:00'' ''b'']"
    using m by simp
  then show ?thesis
    using adj[rule_format, of 0] adj[rule_format, of 1] e by simp
qed

section \<open>Properties of the comparison\<close>



text \<open>
  C8: the new annotations computed by lines 122 to 126 are exactly their annotations
  whose identity is not the identity of any of ours, in their order in their list; the
  identity of an annotation is the last 42 characters of its \<^verbatim>\<open>"id"\<close> (a suffix of
  it, of length 42 or of the length of the whole string when that is shorter).
\<close>

theorem new_annotations_are_theirs_absent_from_ours:
  assumes "\<forall>S. finite S \<longrightarrow> set (materialize S) = S"
  shows "their_new_annotations materialize ours theirs =
           filter (\<lambda>a. id_suffix a \<notin> id_suffix ` set ours) theirs \<and>
         length (id_suffix x) = min 42 (length (ann_id x)) \<and>
         (\<exists>p. ann_id x = p @ id_suffix x)"
proof -
  have "ann_id x = take (length (ann_id x) - 42) (ann_id x) @ id_suffix x"
    by (simp add: id_suffix_def)
  then have "\<exists>p. ann_id x = p @ id_suffix x" ..
  moreover have "length (id_suffix x) = min 42 (length (ann_id x))"
    by (simp add: id_suffix_def)
  ultimately show ?thesis
    using their_new_annotations_filter[OF assms] by simp
qed

theorem new_annotations_are_theirs_absent_from_ours_witness:
  "their_new_annotations sorted_list_of_set
      [sample_annotation ''CATMA_1'' ''2024-05-01T10:00:00'' ''ours'']
      [sample_annotation ''CATMA_1'' ''2024-05-01T10:00:00'' ''theirs'',
       sample_annotation ''CATMA_2'' ''2024-05-01T11:00:00'' ''new'']
    = [sample_annotation ''CATMA_2'' ''2024-05-01T11:00:00'' ''new''] \<and>
   length (id_suffix (sample_annotation ''CATMA_2'' ''2024-05-01T11:00:00'' ''new'')) = 7"
proof -
  have c: "\<forall>S::string set. finite S \<longrightarrow> set (sorted_list_of_set S) = S" by simp
  show ?thesis
    using new_annotations_are_theirs_absent_from_ours[OF c,
        of "[sample_annotation ''CATMA_1'' ''2024-05-01T10:00:00'' ''ours'']"
           "[sample_annotation ''CATMA_1'' ''2024-05-01T10:00:00'' ''theirs'',
             sample_annotation ''CATMA_2'' ''2024-05-01T11:00:00'' ''new'']"
           "sample_annotation ''CATMA_2'' ''2024-05-01T11:00:00'' ''new''"]
    by (simp add: sample_annotation_def id_suffix_def)
qed

text \<open>
  C9: for a mismatch on the identity that the test of the repository uses, the line
  printed is the one of the f-string of line 139, with the prefix \<^verbatim>\<open>WARNING: \<close> and
  the suffix \<^verbatim>\<open>, check manually\<close>; it is not the message
  \<^verbatim>\<open>Mismatch in annotations with ID ...\<close> that the specification and
  \<^verbatim>\<open>tests/test_conflicted_ac_page_resolver.py\<close> expect.
\<close>

theorem printed_message_differs_from_tested_format:
  "snd (annotations_to_insert sorted_list_of_set
          [sample_annotation ''CATMA_EC4AAAB3-A65D-43E7-A966-67CDE70E636A'' ''2024-05-01T10:00:00'' ''ours'']
          [sample_annotation ''CATMA_EC4AAAB3-A65D-43E7-A966-67CDE70E636A'' ''2024-05-01T10:00:00'' ''theirs''])
     = [''WARNING: Mismatch in annotations with ID CATMA_EC4AAAB3-A65D-43E7-A966-67CDE70E636A, check manually'']
   \<and> snd (annotations_to_insert sorted_list_of_set
          [sample_annotation ''CATMA_EC4AAAB3-A65D-43E7-A966-67CDE70E636A'' ''2024-05-01T10:00:00'' ''ours'']
          [sample_annotation ''CATMA_EC4AAAB3-A65D-43E7-A966-67CDE70E636A'' ''2024-05-01T10:00:00'' ''theirs''])
     \<noteq> [''Mismatch in annotations with ID CATMA_EC4AAAB3-A65D-43E7-A966-67CDE70E636A'']"
proof -
  have c: "\<forall>S::string set. finite S \<longrightarrow> set (sorted_list_of_set S) = S" by simp
  show ?thesis
    by (simp add: annotations_to_insert_closed[OF c] mismatched_with_def mismatch_message_def
        sample_annotation_def id_suffix_def)
qed

text \<open>
  C10: the outcome of a run (both rebuilt files, the merged list, the printed lines and
  the failure, if any) does not depend on the order in which Python enumerates the two
  sets of identities: any two enumerations that return the elements of the set give the
  same outcome.
\<close>

theorem resolve_independent_of_set_order:
  assumes "\<forall>S. finite S \<longrightarrow> set (m1 S) = S" and "\<forall>S. finite S \<longrightarrow> set (m2 S) = S"
  shows "resolve json_load f m1 lines = (resolve json_load f m2 lines :: 'a outcome)"
proof -
  have "resolve_annotations f m1 ours theirs = resolve_annotations f m2 ours theirs"
    for ours theirs :: "'a annotation list"
    by (simp add: resolve_annotations_def annotations_to_insert_cong[OF assms])
  then have same: "resolve_annotations f m1 = (resolve_annotations f m2
      :: 'a annotation list \<Rightarrow> 'a annotation list \<Rightarrow> string list \<times> (error + 'a annotation list))"
    by (intro ext)
  have "annotations_to_insert m1 ours theirs = annotations_to_insert m2 ours theirs"
    for ours theirs :: "'a annotation list"
    by (rule annotations_to_insert_cong[OF assms])
  then have same_printed: "annotations_to_insert m1 = (annotations_to_insert m2
      :: 'a annotation list \<Rightarrow> 'a annotation list \<Rightarrow> 'a annotation list \<times> string list)"
    by (intro ext)
  show ?thesis
    unfolding resolve_def same same_printed by (rule refl)
qed

theorem resolve_independent_of_set_order_witness:
  "resolve sample_json_load sample_fromisoformat sorted_list_of_set
     [''<<<<<<< HEAD\<newline>'', ''[]\<newline>'', ''=======\<newline>'', ''[]\<newline>'', ''>>>>>>> master\<newline>'']
   = resolve sample_json_load sample_fromisoformat descending_list_of_set
     [''<<<<<<< HEAD\<newline>'', ''[]\<newline>'', ''=======\<newline>'', ''[]\<newline>'', ''>>>>>>> master\<newline>'']"
  by (rule resolve_independent_of_set_order) (simp_all add: descending_list_of_set_def)

section \<open>Properties of the reconstruction and of the files written\<close>

text \<open>
  C2: for a text without any marker line the scan leaves both
  \<^verbatim>\<open>unconflicted_start_until_idx\<close> and \<^verbatim>\<open>unconflicted_end_from_idx\<close> at
  \<^verbatim>\<open>None\<close>, so \<^verbatim>\<open>lines[:None]\<close> and \<^verbatim>\<open>lines[None:]\<close> are both the whole
  file: the text written for either side is the input text twice, not the input text.
\<close>

theorem unconflicted_text_is_written_twice:
  assumes "\<forall>line\<in>set lines. \<not> startswith line HEAD_MARKER \<and> \<not> startswith line SEPARATOR
             \<and> \<not> startswith line MASTER_MARKER"
  shows "our_file (resolve json_load f m lines) = Some (concat lines @ concat lines) \<and>
         their_file (resolve json_load f m lines) = Some (concat lines @ concat lines)"
proof -
  have "scan lines = Inr initial_scan_state"
    using assms by (simp add: scan_def scan_from_unmarked)
  then show ?thesis
    using resolve_files_written[OF _ reconstruct_initial, of lines json_load f m]
    by simp
qed

theorem unconflicted_text_is_written_twice_witness:
  "our_file (resolve sample_json_load sample_fromisoformat sorted_list_of_set [''[]\<newline>''])
     = Some ''[]\<newline>[]\<newline>'' \<and>
   their_file (resolve sample_json_load sample_fromisoformat sorted_list_of_set [''[]\<newline>''])
     = Some ''[]\<newline>[]\<newline>'' \<and>
   concat [''[]\<newline>''] \<noteq> ''[]\<newline>[]\<newline>''"
  using unconflicted_text_is_written_twice[of "[''[]\<newline>'']" sample_json_load
          sample_fromisoformat sorted_list_of_set]
  by (simp add: startswith_def HEAD_MARKER_def SEPARATOR_def MASTER_MARKER_def)

text \<open>
  C3: an ours-start marker that no separator follows does not trip the sanity check,
  which only looks at marker lines; the scan ends normally, both files are written
  (holding the marker line) and the run fails later, when \<^verbatim>\<open>json.load\<close> rejects the
  text.
\<close>

theorem unterminated_block_writes_both_files:
  "resolve sample_json_load sample_fromisoformat sorted_list_of_set
     [''<<<<<<< HEAD\<newline>'', ''[]\<newline>'']
   = \<lparr>our_file = Some ''<<<<<<< HEAD\<newline>[]\<newline>'',
      their_file = Some ''<<<<<<< HEAD\<newline>[]\<newline>'',
      merged_file = None, stdout = [], failure = Some JSONDecodeError\<rparr>"
  by (simp add: resolve_def scan_def scan_line_def initial_scan_state_def startswith_def
      HEAD_MARKER_def SEPARATOR_def MASTER_MARKER_def reconstruct_def py_slice_def
      sample_json_load_def)

text \<open>
  C5, as the specification states it: a run in which a rebuilt side is not a JSON array
  of objects would abort and leave none of the three files written. In the first run
  below neither side is JSON: the run aborts, but \<^verbatim>\<open>our_file\<close> and
  \<^verbatim>\<open>their_file\<close> have been written. In the second run their side is the empty
  object \<^verbatim>\<open>{}\<close>: nothing checks the shape of the value, iterating it yields no
  annotation, and the run completes and writes \<^verbatim>\<open>merged_file\<close>.
\<close>

theorem parse_failure_leaves_both_sides_written:
  "resolve sample_json_load sample_fromisoformat sorted_list_of_set
     [''<<<<<<< HEAD\<newline>'', ''[\<newline>'', ''=======\<newline>'', '']\<newline>'',
      ''>>>>>>> master\<newline>'']
   = \<lparr>our_file = Some ''[\<newline>'', their_file = Some '']\<newline>'',
      merged_file = None, stdout = [], failure = Some JSONDecodeError\<rparr>
   \<and> resolve sample_json_load sample_fromisoformat sorted_list_of_set
     [''<<<<<<< HEAD\<newline>'', ''[]\<newline>'', ''=======\<newline>'', ''{}\<newline>'',
      ''>>>>>>> master\<newline>'']
   = \<lparr>our_file = Some ''[]\<newline>'', their_file = Some ''{}\<newline>'',
      merged_file = Some [], stdout = [], failure = None\<rparr>"
  by (simp add: resolve_def scan_def scan_line_def initial_scan_state_def startswith_def
      HEAD_MARKER_def SEPARATOR_def MASTER_MARKER_def reconstruct_def py_slice_def
      sample_json_load_def annotations_of_def resolve_annotations_def
      annotations_to_insert_no_theirs merge_annotations_def)

text \<open>
  C5, amended: take a run that reaches the parse (the scan and the reconstruction
  succeed). If a rebuilt side is not a JSON array of objects with a string
  \<^verbatim>\<open>"id"\<close> (\<^verbatim>\<open>json.load\<close> raises on it, or returns another value), the run aborts,
  nothing has been printed and \<^verbatim>\<open>merged_file\<close> is not written, while
  \<^verbatim>\<open>our_file\<close> and \<^verbatim>\<open>their_file\<close> hold the two rebuilt texts, since the parse
  reads them back from those files. The one exception is their side being the empty
  object or the empty string next to an array of ours: that run does not abort, it
  proceeds as with an empty array of theirs and writes our annotations, unchanged, to
  \<^verbatim>\<open>merged_file\<close>.
\<close>

theorem parse_failure_writes_no_merged_file:
  assumes "scan lines = Inr st" and "reconstruct lines st = Inr (ours, theirs)"
  shows "((\<forall>annotations. json_load (concat ours) \<noteq> Some (AnnotationArray annotations))
            \<or> json_load (concat theirs) = None
            \<or> json_load (concat theirs) = Some OtherValue
          \<longrightarrow> (\<exists>e. resolve json_load f m lines =
                     \<lparr>our_file = Some (concat ours), their_file = Some (concat theirs),
                      merged_file = None, stdout = [], failure = Some e\<rparr>))
       \<and> (\<forall>annotations. json_load (concat ours) = Some (AnnotationArray annotations)
            \<and> json_load (concat theirs) = Some EmptyObjectOrString
          \<longrightarrow> resolve json_load f m lines =
                     \<lparr>our_file = Some (concat ours), their_file = Some (concat theirs),
                      merged_file = Some annotations, stdout = [], failure = None\<rparr>)"
proof (intro conjI impI allI)
  assume bad: "(\<forall>annotations. json_load (concat ours) \<noteq> Some (AnnotationArray annotations))
            \<or> json_load (concat theirs) = None
            \<or> json_load (concat theirs) = Some OtherValue"
  show "\<exists>e. resolve json_load f m lines =
                     \<lparr>our_file = Some (concat ours), their_file = Some (concat theirs),
                      merged_file = None, stdout = [], failure = Some e\<rparr>"
  proof (cases "json_load (concat ours)")
    case None
    then show ?thesis using assms by (simp add: resolve_def)
  next
    case (Some our_value)
    note ov = Some
    show ?thesis
    proof (cases "json_load (concat theirs)")
      case None
      then show ?thesis using assms ov by (simp add: resolve_def)
    next
      case (Some their_value)
      note tv = Some
      show ?thesis
      proof (cases our_value)
        case (AnnotationArray annotations)
        then have "their_value = OtherValue" using bad ov tv by simp
        then show ?thesis
          using assms ov tv AnnotationArray by (simp add: resolve_def annotations_of_def)
      next
        case EmptyObjectOrString
        then show ?thesis
          using assms ov tv
          by (cases their_value)
             (simp_all add: resolve_def annotations_of_def annotations_to_insert_no_ours)
      next
        case OtherValue
        then show ?thesis
          using assms ov tv by (simp add: resolve_def annotations_of_def)
      qed
    qed
  qed
next
  fix annotations
  assume "json_load (concat ours) = Some (AnnotationArray annotations)
            \<and> json_load (concat theirs) = Some EmptyObjectOrString"
  then show "resolve json_load f m lines =
                     \<lparr>our_file = Some (concat ours), their_file = Some (concat theirs),
                      merged_file = Some annotations, stdout = [], failure = None\<rparr>"
    using assms
    by (simp add: resolve_def annotations_of_def resolve_annotations_def
        annotations_to_insert_no_theirs merge_annotations_def)
qed

theorem parse_failure_writes_no_merged_file_witness:
  "(\<exists>e. resolve sample_json_load sample_fromisoformat sorted_list_of_set
           [''<<<<<<< HEAD\<newline>'', ''[]\<newline>'', ''=======\<newline>'', ''7\<newline>'',
            ''>>>>>>> master\<newline>'']
         = \<lparr>our_file = Some ''[]\<newline>'', their_file = Some ''7\<newline>'',
            merged_file = None, stdout = [], failure = Some e\<rparr>) \<and>
   resolve sample_json_load sample_fromisoformat sorted_list_of_set
     [''<<<<<<< HEAD\<newline>'', ''[]\<newline>'', ''=======\<newline>'', ''{}\<newline>'',
      ''>>>>>>> master\<newline>'']
   = \<lparr>our_file = Some ''[]\<newline>'', their_file = Some ''{}\<newline>'',
      merged_file = Some [], stdout = [], failure = None\<rparr>"
proof -
  let ?bad = "[''<<<<<<< HEAD\<newline>'', ''[]\<newline>'', ''=======\<newline>'', ''7\<newline>'',
               ''>>>>>>> master\<newline>'']"
  let ?empty = "[''<<<<<<< HEAD\<newline>'', ''[]\<newline>'', ''=======\<newline>'', ''{}\<newline>'',
                 ''>>>>>>> master\<newline>'']"
  let ?st = "\<lparr>ours_start = Some 1, ours_end = Some 2, theirs_start = Some 3, theirs_end = Some 4,
            unconflicted_start_until_idx = Some 0, unconflicted_end_from_idx = Some 5,
            unconflicted_line_idxs = [], conflicts = [(Some 1, Some 2, Some 3, Some 4)],
            next_expected_marker = HEAD_MARKER\<rparr>"
  have s1: "scan ?bad = Inr ?st"
    by (simp add: scan_def scan_line_def initial_scan_state_def startswith_def
        HEAD_MARKER_def SEPARATOR_def MASTER_MARKER_def)
  have r1: "reconstruct ?bad ?st = Inr ([''[]\<newline>''], [''7\<newline>''])"
    by (simp add: reconstruct_def py_slice_def)
  have s2: "scan ?empty = Inr ?st"
    by (simp add: scan_def scan_line_def initial_scan_state_def startswith_def
        HEAD_MARKER_def SEPARATOR_def MASTER_MARKER_def)
  have r2: "reconstruct ?empty ?st = Inr ([''[]\<newline>''], [''{}\<newline>''])"
    by (simp add: reconstruct_def py_slice_def)
  have b1: "sample_json_load (concat [''7\<newline>'']) = Some OtherValue"
    by (simp add: sample_json_load_def)
  have b2: "sample_json_load (concat [''[]\<newline>'']) = Some (AnnotationArray [])
            \<and> sample_json_load (concat [''{}\<newline>'']) = Some EmptyObjectOrString"
    by (simp add: sample_json_load_def)
  show ?thesis
    using parse_failure_writes_no_merged_file[OF s1 r1, of sample_json_load
            sample_fromisoformat sorted_list_of_set]
          parse_failure_writes_no_merged_file[OF s2 r2, of sample_json_load
            sample_fromisoformat sorted_list_of_set]
          b1 b2
    by simp
qed

end
